theory Spec2Isabelle
  imports Complex_Main "HOL-Library.AList" "HOL-Library.Sublist"
begin

section \<open>The host: paths, the file tree, refusals, the log\<close>

text \<open>
  A path is the list of its components below the root directory: \<open>/Zdir/GoPro\<close> is
  \<open>[''Zdir'', ''GoPro'']\<close> and \<open>[]\<close> is \<open>/\<close>.  The names that \<open>os.walk\<close> and
  \<open>strftime\<close> produce hold no separator, so \<open>os.path.join\<close> appends one component and
  \<open>os.path.basename\<close> reads the last one.
\<close>

type_synonym path = "string list"

definition DEST_DIR :: path where
  "DEST_DIR = [''Zdir'', ''GoPro'']"

definition os_path_join :: "path \<Rightarrow> string \<Rightarrow> path" where
  "os_path_join p name = p @ [name]"

definition os_path_basename :: "path \<Rightarrow> string" where
  "os_path_basename p = (if p = [] then [] else last p)"

text \<open>
  A regular file carries its modification time and its bytes.  The time is the value of
  \<open>st_mtime\<close>, the float that \<open>os.path.getmtime\<close> returns (seconds since the epoch,
  with a fraction), taken as the rational number it denotes.  Directory timestamps and
  sizes are not modelled.
\<close>

datatype node = File rat string | Dir

text \<open>
  The operations of the operating system that the host may refuse (permissions, a
  read-only or full device, a rename across devices).  The refusals are fixed for a run.
\<close>

datatype syscall =
    Mkdir path | ListDir path | ReadFile path | WriteFile path | Unlink path
  | Rename path path

datatype exn =
    FileExistsError | FileNotFoundError | NotADirectoryError | IsADirectoryError
  | PermissionError | OSError | SameFileError | ShutilError | ValueError

text \<open>The calendar date of a \<open>datetime\<close>; the time of day plays no part in the bucket.\<close>

record date =
  year :: int
  month :: int
  day :: int

text \<open>The lines written through \<open>logger.info\<close> and \<open>logger.error\<close> by the engine.\<close>

datatype event =
    NewFilesFound nat
  | Progress nat nat nat
  | ErrorProcessing path exn
  | Finished nat nat
  | ErrorDuringProcessing exn

record world =
  tree :: "(path \<times> node) list"
  denied :: "syscall \<Rightarrow> bool"
  localtime :: "int \<Rightarrow> date"
  log :: "event list"

definition lookup :: "world \<Rightarrow> path \<Rightarrow> node option" where
  "lookup w p = (if p = [] then Some Dir else map_of (tree w) p)"

definition logger :: "event \<Rightarrow> world \<Rightarrow> world" where
  "logger e w = w\<lparr>log := log w @ [e]\<rparr>"

section \<open>The library calls of the engine\<close>

definition os_path_exists :: "world \<Rightarrow> path \<Rightarrow> bool" where
  "os_path_exists w p = (lookup w p \<noteq> None)"

definition os_path_isdir :: "world \<Rightarrow> path \<Rightarrow> bool" where
  "os_path_isdir w p = (lookup w p = Some Dir)"

definition os_path_getmtime :: "world \<Rightarrow> path \<Rightarrow> exn + rat" where
  "os_path_getmtime w p =
     (case lookup w p of
        None \<Rightarrow> Inl FileNotFoundError
      | Some (File t c) \<Rightarrow> Inr t
      | Some Dir \<Rightarrow> Inr 0)"

definition os_path_getsize :: "world \<Rightarrow> path \<Rightarrow> exn + nat" where
  "os_path_getsize w p =
     (case lookup w p of
        None \<Rightarrow> Inl FileNotFoundError
      | Some (File t c) \<Rightarrow> Inr (length c)
      | Some Dir \<Rightarrow> Inr 0)"

definition os_mkdir :: "world \<Rightarrow> path \<Rightarrow> exn + world" where
  "os_mkdir w p =
     (if lookup w p \<noteq> None then Inl FileExistsError
      else (case lookup w (butlast p) of
              None \<Rightarrow> Inl FileNotFoundError
            | Some (File t c) \<Rightarrow> Inl NotADirectoryError
            | Some Dir \<Rightarrow>
                if denied w (Mkdir p) then Inl PermissionError
                else Inr (w\<lparr>tree := AList.update p Dir (tree w)\<rparr>)))"

text \<open>
  \<open>os.makedirs(name, exist_ok=True)\<close>: the missing ancestors first, then \<open>mkdir\<close>,
  whose \<open>OSError\<close> is swallowed when the name is a directory already.  The directories
  made before a failure stay.  The recursion runs on the reversed path (last component
  first), as \<open>os.path.split\<close> peels it.
\<close>

definition mkdir_exist_ok :: "world \<Rightarrow> path \<Rightarrow> exn option \<times> world" where
  "mkdir_exist_ok w p =
     (case os_mkdir w p of
        Inr w' \<Rightarrow> (None, w')
      | Inl e \<Rightarrow> if os_path_isdir w p then (None, w) else (Some e, w))"

fun makedirs_rev :: "world \<Rightarrow> string list \<Rightarrow> exn option \<times> world" where
  "makedirs_rev w [] = mkdir_exist_ok w []"
| "makedirs_rev w (name # rhead) =
     (if os_path_exists w (rev rhead) then mkdir_exist_ok w (rev (name # rhead))
      else (case makedirs_rev w rhead of
              (None, w1) \<Rightarrow> mkdir_exist_ok w1 (rev (name # rhead))
            | (Some e, w1) \<Rightarrow>
                if e = FileExistsError then mkdir_exist_ok w1 (rev (name # rhead))
                else (Some e, w1)))"

definition os_makedirs :: "world \<Rightarrow> path \<Rightarrow> exn option \<times> world" where
  "os_makedirs w p = makedirs_rev w (rev p)"

text \<open>
  \<open>os.scandir\<close> in the order of the tree's entries; \<open>os.walk\<close> top-down, without
  following links, an unreadable directory yielding nothing (\<open>onerror=None\<close>).
\<close>

definition scandir_dirs :: "world \<Rightarrow> path \<Rightarrow> string list" where
  "scandir_dirs w root_dir =
     map (\<lambda>(p, n). last p)
       (filter (\<lambda>(p, n). p \<noteq> [] \<and> butlast p = root_dir \<and> n = Dir \<and> map_of (tree w) p = Some n)
          (tree w))"

definition scandir_nondirs :: "world \<Rightarrow> path \<Rightarrow> string list" where
  "scandir_nondirs w root_dir =
     map (\<lambda>(p, n). last p)
       (filter (\<lambda>(p, n). p \<noteq> [] \<and> butlast p = root_dir \<and> n \<noteq> Dir \<and> map_of (tree w) p = Some n)
          (tree w))"

lemma scandir_dirs_in_tree:
  "d \<in> set (scandir_dirs w root_dir) \<Longrightarrow> \<exists>e \<in> set (tree w). fst e = root_dir @ [d]"
  by (force simp: scandir_dirs_def)

lemma walk_measure:
  assumes "d \<in> set (scandir_dirs w root_dir)"
  shows "length (filter (\<lambda>e. strict_prefix (root_dir @ [d]) (fst e)) (tree w))
       < length (filter (\<lambda>e. strict_prefix root_dir (fst e)) (tree w))"
proof -
  let ?ks = "filter (\<lambda>e. strict_prefix root_dir (fst e)) (tree w)"
  obtain e where e: "e \<in> set (tree w)" "fst e = root_dir @ [d]"
    using scandir_dirs_in_tree [OF assms] by blast
  then have mem: "e \<in> set ?ks"
    by (simp add: strict_prefix_def)
  have "\<And>x. strict_prefix (root_dir @ [d]) x \<Longrightarrow> strict_prefix root_dir x"
    by (auto simp: strict_prefix_def prefix_def)
  then have eq: "filter (\<lambda>e. strict_prefix (root_dir @ [d]) (fst e)) (tree w)
          = filter (\<lambda>e. strict_prefix (root_dir @ [d]) (fst e)) ?ks"
    by (auto intro!: filter_cong)
  have "length (filter (\<lambda>e. strict_prefix (root_dir @ [d]) (fst e)) ?ks) < length ?ks"
    by (rule length_filter_less [OF mem]) (simp add: e)
  with eq show ?thesis by simp
qed

function os_walk :: "world \<Rightarrow> path \<Rightarrow> (path \<times> string list \<times> string list) list" where
  "os_walk w root_dir =
     (if denied w (ListDir root_dir) \<or> lookup w root_dir \<noteq> Some Dir then []
      else (root_dir, scandir_dirs w root_dir, scandir_nondirs w root_dir)
           # concat (map (\<lambda>d. os_walk w (os_path_join root_dir d)) (scandir_dirs w root_dir)))"
  by pat_completeness auto
termination
  by (relation "measure (\<lambda>(w, root_dir). length (filter (\<lambda>e. strict_prefix root_dir (fst e)) (tree w)))")
     (auto simp: os_path_join_def walk_measure)

declare os_walk.simps [simp del]


definition walk_files :: "world \<Rightarrow> path \<Rightarrow> path list" where
  "walk_files w source_dir =
     concat (map (\<lambda>(root_dir, dirs, files). map (os_path_join root_dir) files) (os_walk w source_dir))"

text \<open>
  Opening a file for reading and for writing.  A write is all or nothing; it creates the
  file or replaces the one that is there, and \<open>copystat\<close> gives it the source's
  modification time.
\<close>

definition read_file :: "world \<Rightarrow> path \<Rightarrow> exn + rat \<times> string" where
  "read_file w src =
     (case lookup w src of
        None \<Rightarrow> Inl FileNotFoundError
      | Some Dir \<Rightarrow> Inl IsADirectoryError
      | Some (File t c) \<Rightarrow> if denied w (ReadFile src) then Inl PermissionError else Inr (t, c))"

definition write_file :: "world \<Rightarrow> path \<Rightarrow> rat \<Rightarrow> string \<Rightarrow> exn + world" where
  "write_file w dst t c =
     (if lookup w dst = Some Dir then Inl IsADirectoryError
      else (case lookup w (butlast dst) of
              None \<Rightarrow> Inl FileNotFoundError
            | Some (File t' c') \<Rightarrow> Inl NotADirectoryError
            | Some Dir \<Rightarrow>
                if denied w (WriteFile dst) then Inl PermissionError
                else Inr (w\<lparr>tree := AList.update dst (File t c) (tree w)\<rparr>)))"

definition shutil_copy2 :: "world \<Rightarrow> path \<Rightarrow> path \<Rightarrow> exn option \<times> world" where
  "shutil_copy2 w src dst =
     (let dst' = (if os_path_isdir w dst then os_path_join dst (os_path_basename src) else dst)
      in if src = dst' \<and> os_path_exists w src then (Some SameFileError, w)
         else (case read_file w src of
                 Inl e \<Rightarrow> (Some e, w)
               | Inr (t, c) \<Rightarrow>
                   (case write_file w dst' t c of
                      Inl e \<Rightarrow> (Some e, w)
                    | Inr w' \<Rightarrow> (None, w'))))"

definition os_unlink :: "world \<Rightarrow> path \<Rightarrow> exn + world" where
  "os_unlink w p =
     (case lookup w p of
        None \<Rightarrow> Inl FileNotFoundError
      | Some Dir \<Rightarrow> Inl IsADirectoryError
      | Some (File t c) \<Rightarrow>
          if denied w (Unlink p) then Inl PermissionError
          else Inr (w\<lparr>tree := AList.delete p (tree w)\<rparr>))"

text \<open>
  \<open>os.rename\<close> of a regular file replaces a file at the destination.  The engine moves
  only paths that \<open>os.walk\<close> listed as files; renaming a directory, and the
  \<open>copytree\<close> fallback of \<open>shutil.move\<close> for one, are outside the model and answer with
  an error.
\<close>

definition os_rename :: "world \<Rightarrow> path \<Rightarrow> path \<Rightarrow> exn + world" where
  "os_rename w src dst =
     (case lookup w src of
        None \<Rightarrow> Inl FileNotFoundError
      | Some Dir \<Rightarrow> Inl OSError
      | Some (File t c) \<Rightarrow>
          if lookup w dst = Some Dir then Inl IsADirectoryError
          else (case lookup w (butlast dst) of
                  None \<Rightarrow> Inl FileNotFoundError
                | Some (File t' c') \<Rightarrow> Inl NotADirectoryError
                | Some Dir \<Rightarrow>
                    if denied w (Rename src dst) then Inl OSError
                    else if src = dst then Inr w
                    else Inr (w\<lparr>tree := AList.update dst (File t c) (AList.delete src (tree w))\<rparr>)))"

definition move_to :: "world \<Rightarrow> path \<Rightarrow> path \<Rightarrow> exn option \<times> world" where
  "move_to w src real_dst =
     (case os_rename w src real_dst of
        Inr w' \<Rightarrow> (None, w')
      | Inl e \<Rightarrow>
          if os_path_isdir w src then (Some ShutilError, w)
          else (case shutil_copy2 w src real_dst of
                  (Some e', w1) \<Rightarrow> (Some e', w1)
                | (None, w1) \<Rightarrow>
                    (case os_unlink w1 src of
                       Inl e' \<Rightarrow> (Some e', w1)
                     | Inr w2 \<Rightarrow> (None, w2))))"

definition shutil_move :: "world \<Rightarrow> path \<Rightarrow> path \<Rightarrow> exn option \<times> world" where
  "shutil_move w src dst =
     (if os_path_isdir w dst then
        (let real_dst = os_path_join dst (os_path_basename src)
         in if os_path_exists w real_dst then (Some ShutilError, w)
            else move_to w src real_dst)
      else move_to w src dst)"

text \<open>
  The path that \<open>shutil.copy2\<close> and \<open>shutil.move\<close> write: the destination, or the
  source's base name inside it when the destination is a directory.
\<close>

definition real_dst :: "world \<Rightarrow> path \<Rightarrow> path \<Rightarrow> path" where
  "real_dst w src dst =
     (if os_path_isdir w dst then os_path_join dst (os_path_basename src) else dst)"

definition is_file :: "node option \<Rightarrow> bool" where
  "is_file n = (case n of Some (File t c) \<Rightarrow> True | _ \<Rightarrow> False)"

text \<open>Two worlds of the same host: the same refusals, the same time zone, the same log.\<close>

definition same_host :: "world \<Rightarrow> world \<Rightarrow> bool" where
  "same_host w w' \<longleftrightarrow> denied w' = denied w \<and> localtime w' = localtime w \<and> log w' = log w"

section \<open>Dates and the bucket name\<close>

definition MINYEAR :: int where "MINYEAR = 1"
definition MAXYEAR :: int where "MAXYEAR = 9999"

definition days_in_month :: "int \<Rightarrow> int \<Rightarrow> int" where
  "days_in_month y m =
     (if m = 2 then (if y mod 4 = 0 \<and> (y mod 100 \<noteq> 0 \<or> y mod 400 = 0) then 29 else 28)
      else if m = 4 \<or> m = 6 \<or> m = 9 \<or> m = 11 then 30 else 31)"

text \<open>
  \<open>datetime.fromtimestamp\<close> rounds the float to microseconds, half to even, and asks
  the C library for the local time of the whole second that the rounded value lies in;
  the date is refused with \<open>ValueError\<close> when \<open>datetime\<close> cannot hold it.  The time
  zone is the host's: \<open>localtime w\<close> gives the local calendar date of a whole second.
\<close>

definition round_half_even :: "rat \<Rightarrow> int" where
  "round_half_even x =
     (let f = \<lfloor>x\<rfloor>; r = x - of_int f
      in if r < 1 / 2 then f else if 1 / 2 < r then f + 1 else if even f then f else f + 1)"

definition datetime_fromtimestamp :: "world \<Rightarrow> rat \<Rightarrow> exn + date" where
  "datetime_fromtimestamp w t =
     (let d = localtime w (round_half_even (t * 1000000) div 1000000)
      in if MINYEAR \<le> year d \<and> year d \<le> MAXYEAR \<and> 1 \<le> month d \<and> month d \<le> 12
            \<and> 1 \<le> day d \<and> day d \<le> days_in_month (year d) (month d)
         then Inr d else Inl ValueError)"

text \<open>The decimal digits of a Python integer; \<open>zfill\<close> pads with zeros on the left.\<close>

definition digit_char :: "int \<Rightarrow> char" where
  "digit_char n = ''0123456789'' ! nat (n mod 10)"

function decimal :: "int \<Rightarrow> string" where
  "decimal n = (if n < 10 then [digit_char n] else decimal (n div 10) @ [digit_char n])"
  by pat_completeness auto
termination
  by (relation "measure nat") auto

declare decimal.simps [simp del]

definition zfill :: "nat \<Rightarrow> string \<Rightarrow> string" where
  "zfill k s = replicate (k - length s) (CHR ''0'') @ s"

text \<open>
  \<open>strftime("%m-%d-%Y")\<close> as the C library of the program's platform (glibc) formats
  it: month and day padded with a zero to two digits, the year written as the decimal
  number it is, without padding.
\<close>

definition strftime_mdY :: "date \<Rightarrow> string" where
  "strftime_mdY d =
     zfill 2 (decimal (month d)) @ ''-'' @ zfill 2 (decimal (day d)) @ ''-''
       @ decimal (year d)"


text \<open>
  The proleptic Gregorian date of a day number counted from 1 January 1970, and with it
  the \<open>localtime\<close> of a host whose zone is UTC.
\<close>

definition civil_from_days :: "int \<Rightarrow> date" where
  "civil_from_days z0 =
     (let z = z0 + 719468;
          era = z div 146097;
          doe = z mod 146097;
          yoe = (doe - doe div 1460 + doe div 36524 - doe div 146096) div 365;
          doy = doe - (365 * yoe + yoe div 4 - yoe div 100);
          mp = (5 * doy + 2) div 153;
          d = doy - (153 * mp + 2) div 5 + 1;
          m = (if mp < 10 then mp + 3 else mp - 9);
          y = yoe + era * 400
      in \<lparr>year = (if m \<le> 2 then y + 1 else y), month = m, day = d\<rparr>)"

definition utc_localtime :: "int \<Rightarrow> date" where
  "utc_localtime t = civil_from_days (t div 86400)"

section \<open>The sync engine: \<open>copy_or_move_files\<close>\<close>

text \<open>
  Lines 218 to 221, and again 236 to 239: the bucket directory of a source file, from its
  modification time.
\<close>

definition date_subdir :: "world \<Rightarrow> path \<Rightarrow> exn + path" where
  "date_subdir w src_path =
     (case os_path_getmtime w src_path of
        Inl e \<Rightarrow> Inl e
      | Inr mtime \<Rightarrow>
          (case datetime_fromtimestamp w mtime of
             Inl e \<Rightarrow> Inl e
           | Inr date_obj \<Rightarrow> Inr (os_path_join DEST_DIR (strftime_mdY date_obj))))"

text \<open>
  Lines 214 to 224: the loop that fills \<open>files_to_process\<close>.  An exception leaves the
  loop and the function's outer \<open>try\<close> block.
\<close>

fun scan_files :: "world \<Rightarrow> path list \<Rightarrow> path list \<Rightarrow> exn + path list" where
  "scan_files w files_to_process [] = Inr files_to_process"
| "scan_files w files_to_process (src_path # rest) =
     (case date_subdir w src_path of
        Inl e \<Rightarrow> Inl e
      | Inr dest_subdir \<Rightarrow>
          (let dest_path = os_path_join dest_subdir (os_path_basename src_path)
           in scan_files w
                (if \<not> os_path_exists w dest_path then files_to_process @ [src_path]
                 else files_to_process)
                rest))"

text \<open>Lines 236 to 253: the body of the inner \<open>try\<close> block, for one candidate.\<close>

definition transfer_file :: "bool \<Rightarrow> world \<Rightarrow> path \<Rightarrow> (exn + nat) \<times> world" where
  "transfer_file move w src_path =
     (case date_subdir w src_path of
        Inl e \<Rightarrow> (Inl e, w)
      | Inr dest_subdir \<Rightarrow>
          (case os_makedirs w dest_subdir of
             (Some e, w1) \<Rightarrow> (Inl e, w1)
           | (None, w1) \<Rightarrow>
               (let dest_path = os_path_join dest_subdir (os_path_basename src_path)
                in case (if move then shutil_move w1 src_path dest_path
                         else shutil_copy2 w1 src_path dest_path) of
                     (Some e, w2) \<Rightarrow> (Inl e, w2)
                   | (None, w2) \<Rightarrow>
                       (case os_path_getsize w2 dest_path of
                          Inl e \<Rightarrow> (Inl e, w2)
                        | Inr file_size \<Rightarrow> (Inr file_size, w2)))))"

text \<open>
  Lines 234 to 261: one turn of the loop over the candidates, with the index \<open>i\<close> of
  \<open>enumerate\<close>, the two counters, and the \<open>except\<close> clause that logs and goes on;
  then the loop.
\<close>

definition transfer_step ::
  "bool \<Rightarrow> nat \<Rightarrow> nat \<Rightarrow> path \<Rightarrow> world \<times> nat \<times> nat \<Rightarrow> world \<times> nat \<times> nat" where
  "transfer_step move total_new_files i src_path st =
     (case st of
        (w, processed_new_files, total_size_processed) \<Rightarrow>
          (case transfer_file move w src_path of
             (Inr file_size, w') \<Rightarrow>
               (if (i + 1) mod 10 = 0 \<or> i + 1 = total_new_files
                then logger (Progress (processed_new_files + 1) total_new_files
                               (total_size_processed + file_size)) w'
                else w',
                processed_new_files + 1, total_size_processed + file_size)
           | (Inl e, w') \<Rightarrow>
               (logger (ErrorProcessing src_path e) w', processed_new_files,
                total_size_processed)))"

fun transfer_loop ::
  "bool \<Rightarrow> nat \<Rightarrow> nat \<Rightarrow> path list \<Rightarrow> world \<times> nat \<times> nat \<Rightarrow> world \<times> nat \<times> nat" where
  "transfer_loop move total_new_files i [] st = st"
| "transfer_loop move total_new_files i (src_path # rest) st =
     transfer_loop move total_new_files (i + 1) rest
       (transfer_step move total_new_files i src_path st)"

text \<open>
  What each turn of the loop met, in order: the size of the transferred file, or the
  exception that its \<open>except\<close> clause caught.
\<close>

fun attempts ::
  "bool \<Rightarrow> nat \<Rightarrow> nat \<Rightarrow> path list \<Rightarrow> world \<times> nat \<times> nat \<Rightarrow> (exn + nat) list" where
  "attempts move total_new_files i [] st = []"
| "attempts move total_new_files i (src_path # rest) st =
     fst (transfer_file move (fst st) src_path)
     # attempts move total_new_files (i + 1) rest
         (transfer_step move total_new_files i src_path st)"

text \<open>
  The result is the tuple the function returns (success, files processed, candidates,
  bytes) and the world it leaves.
\<close>

definition copy_or_move_files :: "bool \<Rightarrow> world \<Rightarrow> path \<Rightarrow> (bool \<times> nat \<times> nat \<times> nat) \<times> world" where
  "copy_or_move_files move w source_dir =
     (case os_makedirs w DEST_DIR of
        (Some e, w1) \<Rightarrow> ((False, 0, 0, 0), logger (ErrorDuringProcessing e) w1)
      | (None, w1) \<Rightarrow>
          (case scan_files w1 [] (walk_files w1 source_dir) of
             Inl e \<Rightarrow> ((False, 0, 0, 0), logger (ErrorDuringProcessing e) w1)
           | Inr files_to_process \<Rightarrow>
               (let total_new_files = length files_to_process
                in case transfer_loop move total_new_files 0 files_to_process
                          (logger (NewFilesFound total_new_files) w1, 0, 0) of
                     (w2, processed_new_files, total_size_processed) \<Rightarrow>
                       ((True, processed_new_files, total_new_files, total_size_processed),
                        logger (Finished processed_new_files total_size_processed) w2))))"

section \<open>The orchestrator: \<open>main\<close>\<close>

text \<open>
  The command line, as far as it steers the run (\<open>--verbose\<close> and \<open>--sound\<close> change
  only what is logged and played).
\<close>

record args =
  args_move :: bool
  args_no_notify :: bool

text \<open>
  What the mount locator answers in one turn of the polling loop: the results of the four
  probes, and the time in milliseconds that the probes took.  \<open>check_mtp_connection\<close>
  and \<open>try_access_gopro_mtp\<close> catch every exception themselves and return a value;
  \<open>is_gopro_connected\<close> and \<open>find_gopro_mount_point\<close> (with
  \<open>find_gopro_gvfs_mount\<close>, which both call) have no \<open>try\<close>, so they return a value
  or raise.  Of a returned value, \<open>None\<close> is every falsy one.
\<close>

record probe =
  check_mtp_connection :: bool
  is_gopro_connected :: "exn + path option"
  find_gopro_mount_point :: "exn + path option"
  try_access_gopro_mtp :: "path option"
  elapsed :: nat

record host =
  clock :: int
  probes :: "nat \<Rightarrow> probe"

datatype notification =
    StatusSuccessful nat nat nat
  | TransferFailed
  | ListingFailed exn
  | MountInaccessible path

text \<open>
  How the process ends: its exit code, the exception that ended it when none of the
  \<open>sys.exit\<close> calls was reached, the source directories the engine was called with,
  the desktop notifications sent, and the world it leaves.
\<close>

record run =
  exit_code :: nat
  uncaught :: "exn option"
  synced :: "path list"
  notified :: "notification list"
  final :: world

definition os_listdir :: "world \<Rightarrow> path \<Rightarrow> exn + string list" where
  "os_listdir w p =
     (case lookup w p of
        None \<Rightarrow> Inl FileNotFoundError
      | Some (File t c) \<Rightarrow> Inl NotADirectoryError
      | Some Dir \<Rightarrow>
          if denied w (ListDir p) then Inl PermissionError
          else Inr (map (\<lambda>(q, n). last q)
                 (filter (\<lambda>(q, n). q \<noteq> [] \<and> butlast q = p \<and> map_of (tree w) q = Some n)
                    (tree w))))"

definition os_access_R_OK :: "world \<Rightarrow> path \<Rightarrow> bool" where
  "os_access_R_OK w p =
     (case lookup w p of
        None \<Rightarrow> False
      | Some (File t c) \<Rightarrow> \<not> denied w (ReadFile p)
      | Some Dir \<Rightarrow> \<not> denied w (ListDir p))"

definition send_desktop_notification :: "args \<Rightarrow> notification \<Rightarrow> notification list" where
  "send_desktop_notification a n = (if \<not> args_no_notify a then [n] else [])"

text \<open>
  Lines 328 to 343: the cascade of probes that yields \<open>gopro_mount\<close>, or the exception
  that a probe raised.
\<close>

definition locate :: "probe \<Rightarrow> exn + path option" where
  "locate p =
     (if check_mtp_connection p then
        (case is_gopro_connected p of
           Inl e \<Rightarrow> Inl e
         | Inr (Some m) \<Rightarrow> Inr (Some m)
         | Inr None \<Rightarrow>
             (case find_gopro_mount_point p of
                Inl e \<Rightarrow> Inl e
              | Inr (Some m) \<Rightarrow> Inr (Some m)
              | Inr None \<Rightarrow> Inr (try_access_gopro_mtp p)))
      else Inr None)"

text \<open>Lines 345 to 428: a mount was found; every path ends in \<open>sys.exit\<close>.\<close>

definition process_mount :: "args \<Rightarrow> world \<Rightarrow> path \<Rightarrow> run" where
  "process_mount a w gopro_mount =
     (if os_path_exists w gopro_mount \<and> os_access_R_OK w gopro_mount then
        (case os_listdir w gopro_mount of
           Inl e \<Rightarrow>
             \<lparr>exit_code = 1, uncaught = None, synced = [],
              notified = send_desktop_notification a (ListingFailed e), final = w\<rparr>
         | Inr contents \<Rightarrow>
             (let source_to_process =
                    (if ''DCIM'' \<in> set contents then os_path_join gopro_mount ''DCIM''
                     else gopro_mount)
              in case copy_or_move_files (args_move a) w source_to_process of
                   ((success, processed_files, total_files, total_size), w') \<Rightarrow>
                     if success then
                       \<lparr>exit_code = 0, uncaught = None, synced = [source_to_process],
                        notified = send_desktop_notification a
                          (StatusSuccessful processed_files total_files total_size),
                        final = w'\<rparr>
                     else
                       \<lparr>exit_code = 1, uncaught = None, synced = [source_to_process],
                        notified = send_desktop_notification a TransferFailed,
                        final = w'\<rparr>))
      else
        \<lparr>exit_code = 1, uncaught = None, synced = [],
         notified = send_desktop_notification a (MountInaccessible gopro_mount), final = w\<rparr>)"

text \<open>
  Lines 325 to 439: the polling loop.  \<open>time.time()\<close> is read in milliseconds; a turn
  that finds no mount costs what its probes took and the second of \<open>time.sleep(1)\<close>.
  An exception that a probe raises is caught nowhere: the interpreter prints the
  traceback and the process ends with exit code 1.
\<close>

function main_loop :: "args \<Rightarrow> (nat \<Rightarrow> probe) \<Rightarrow> int \<Rightarrow> world \<Rightarrow> int \<Rightarrow> nat \<Rightarrow> run" where
  "main_loop a ps timeout w now i =
     (if now < timeout then
        (case locate (ps i) of
           Inl e \<Rightarrow> \<lparr>exit_code = 1, uncaught = Some e, synced = [], notified = [], final = w\<rparr>
         | Inr (Some gopro_mount) \<Rightarrow> process_mount a w gopro_mount
         | Inr None \<Rightarrow> main_loop a ps timeout w (now + int (elapsed (ps i)) + 1000) (i + 1))
      else \<lparr>exit_code = 0, uncaught = None, synced = [], notified = [], final = w\<rparr>)"
  by pat_completeness auto
termination
  by (relation "measure (\<lambda>(a, ps, timeout, w, now, i). nat (timeout - now))") auto

declare main_loop.simps [simp del]

definition main :: "args \<Rightarrow> host \<Rightarrow> world \<Rightarrow> run" where
  "main a h w = main_loop a (probes h) (clock h + 7000) w (clock h) 0"

text \<open>
  The reading of \<open>time.time()\<close> at the head of turn \<open>i\<close> of the loop, when no turn
  before it found a mount.
\<close>

fun poll_time :: "host \<Rightarrow> nat \<Rightarrow> int" where
  "poll_time h 0 = clock h"
| "poll_time h (Suc i) = poll_time h i + int (elapsed (probes h i)) + 1000"

section \<open>Candidates and disjoint trees\<close>


text \<open>
  The source directory and the destination root lie in disjoint subtrees: neither path
  is a prefix of the other.
\<close>

definition disjoint_trees :: "path \<Rightarrow> bool" where
  "disjoint_trees source_dir \<longleftrightarrow> \<not> prefix source_dir DEST_DIR \<and> \<not> prefix DEST_DIR source_dir"

text \<open>
  What a run over disjoint trees keeps of the world \<open>w1\<close> it started from: the host is
  the same; below the source directory nothing changes but that moved candidates are
  gone; outside it no entry of \<open>w1\<close> changes; and directories are made no deeper than
  the buckets.
\<close>

definition untouched :: "bool \<Rightarrow> path \<Rightarrow> world \<Rightarrow> path set \<Rightarrow> world \<Rightarrow> bool" where
  "untouched move source_dir w1 done w \<longleftrightarrow>
     denied w = denied w1 \<and> localtime w = localtime w1
     \<and> (\<forall>q. prefix source_dir q \<longrightarrow>
            lookup w q = lookup w1 q \<or> (move \<and> q \<in> done \<and> lookup w q = None))
     \<and> (\<forall>q. \<not> prefix source_dir q \<longrightarrow> lookup w1 q \<noteq> None \<longrightarrow> lookup w q = lookup w1 q)
     \<and> (\<forall>q. lookup w q = Some Dir \<longrightarrow>
            lookup w1 q = Some Dir \<or> length q \<le> length DEST_DIR + 1)"

text \<open>A candidate of the scan in \<open>w1\<close>, below the source directory.\<close>

definition fresh :: "path \<Rightarrow> world \<Rightarrow> path \<Rightarrow> bool" where
  "fresh source_dir w1 c \<longleftrightarrow>
     prefix source_dir c
     \<and> (\<exists>s. date_subdir w1 c = Inr s \<and> lookup w1 (os_path_join s (os_path_basename c)) = None)"

section \<open>Example hosts\<close>

text \<open>
  A camera mounted at \<open>/mnt\<close> with three media files, two of them with the same name
  and the same day in different folders; the same mount with nothing on it; and a host
  on which \<open>/Zdir\<close> cannot be created.
\<close>

definition card_world :: world where
  "card_world =
     \<lparr>tree = [([''mnt''], Dir), ([''mnt'', ''DCIM''], Dir),
              ([''mnt'', ''DCIM'', ''GX010001.MP4''], File 1688558400 ''abc''),
              ([''mnt'', ''DCIM'', ''100GOPRO''], Dir),
              ([''mnt'', ''DCIM'', ''GOPR0002.JPG''], File 1704283200 ''hello''),
              ([''mnt'', ''DCIM'', ''100GOPRO'', ''GX010001.MP4''], File 1688558401 ''xy'')],
       denied = (\<lambda>s. False), localtime = utc_localtime, log = []\<rparr>"

definition empty_card :: world where
  "empty_card =
     \<lparr>tree = [([''mnt''], Dir), ([''mnt'', ''DCIM''], Dir)],
       denied = (\<lambda>s. False), localtime = utc_localtime, log = []\<rparr>"

definition readonly_root :: world where
  "readonly_root = card_world\<lparr>denied := (\<lambda>s. s = Mkdir [''Zdir''])\<rparr>"


text \<open>A host on which the camera's mount shows up only at the eighth poll.\<close>

definition late_camera :: host where
  "late_camera =
     \<lparr>clock = 1700000000000,
      probes = (\<lambda>i. \<lparr>check_mtp_connection = True,
                      is_gopro_connected = Inr (if 7 \<le> i then Some [''mnt''] else None),
                      find_gopro_mount_point = Inr None, try_access_gopro_mtp = None,
                      elapsed = 0\<rparr>)\<rparr>"


text \<open>
  A host on which \<open>lsusb\<close> lists the camera while the GVFS directory is a stale
  mount, so that \<open>find_gopro_gvfs_mount\<close> raises \<open>OSError\<close>.
\<close>

definition stale_gvfs :: host where
  "stale_gvfs =
     \<lparr>clock = 1700000000000,
      probes = (\<lambda>i. \<lparr>check_mtp_connection = True, is_gopro_connected = Inl OSError,
                      find_gopro_mount_point = Inl OSError, try_access_gopro_mtp = None,
                      elapsed = 20\<rparr>)\<rparr>"



section \<open>The outcome of a batch\<close>

text \<open>
  C10.  Whenever the engine returns an outcome whose success flag is false, the three
  counters of the outcome (files processed, candidates, bytes) are all zero.
\<close>

theorem failure_counters_zero:
  "\<not> fst (fst (copy_or_move_files move w source_dir)) \<Longrightarrow>
   fst (copy_or_move_files move w source_dir) = (False, 0, 0, 0)"
  by (auto simp: copy_or_move_files_def Let_def split: prod.splits option.splits sum.splits)

theorem failure_counters_zero_witness:
  "\<not> fst (fst (copy_or_move_files False readonly_root [''mnt'', ''DCIM'']))
   \<and> fst (copy_or_move_files False readonly_root [''mnt'', ''DCIM'']) = (False, 0, 0, 0)"
proof -
  have h: "\<not> fst (fst (copy_or_move_files False readonly_root [''mnt'', ''DCIM'']))"
    by code_simp
  from failure_counters_zero [OF h] h show ?thesis by simp
qed

text \<open>
  C6.  When the destination root cannot be created the engine returns failure with
  nothing processed; and the success flag is false exactly when an exception left the
  outer \<open>try\<close> block before the loop over the candidates began, that is when
  \<open>os.makedirs(DEST_DIR)\<close> raised or the scan for candidates raised.  Otherwise the flag
  is true.
\<close>

theorem batch_fatal_iff:
  "(fst (os_makedirs w DEST_DIR) \<noteq> None \<longrightarrow>
      fst (copy_or_move_files move w source_dir) = (False, 0, 0, 0))
   \<and> (fst (fst (copy_or_move_files move w source_dir)) \<longleftrightarrow>
        fst (os_makedirs w DEST_DIR) = None
        \<and> (\<exists>files_to_process.
              scan_files (snd (os_makedirs w DEST_DIR)) []
                (walk_files (snd (os_makedirs w DEST_DIR)) source_dir) = Inr files_to_process))"
  by (auto simp: copy_or_move_files_def Let_def split: prod.splits option.splits sum.splits)

theorem batch_fatal_iff_witness:
  "fst (os_makedirs readonly_root DEST_DIR) = Some PermissionError
   \<and> fst (copy_or_move_files True readonly_root [''mnt'', ''DCIM'']) = (False, 0, 0, 0)"
proof -
  have h: "fst (os_makedirs readonly_root DEST_DIR) = Some PermissionError"
    by code_simp
  with batch_fatal_iff [of readonly_root True "[''mnt'', ''DCIM'']"] show ?thesis
    by simp
qed

text \<open>
  C7.  When the scan yields no candidate the engine returns success with zero files
  processed, zero candidates and zero bytes; it logs no error and leaves the file tree
  as \<open>os.makedirs(DEST_DIR)\<close> left it.
\<close>

theorem empty_candidate_set:
  assumes "fst (os_makedirs w DEST_DIR) = None"
    and "scan_files (snd (os_makedirs w DEST_DIR)) []
           (walk_files (snd (os_makedirs w DEST_DIR)) source_dir) = Inr []"
  shows "fst (copy_or_move_files move w source_dir) = (True, 0, 0, 0)
       \<and> tree (snd (copy_or_move_files move w source_dir)) = tree (snd (os_makedirs w DEST_DIR))
       \<and> log (snd (copy_or_move_files move w source_dir))
           = log (snd (os_makedirs w DEST_DIR)) @ [NewFilesFound 0, Finished 0 0]"
  using assms
  by (auto simp: copy_or_move_files_def logger_def split: prod.splits option.splits)

theorem empty_candidate_set_witness:
  "fst (os_makedirs empty_card DEST_DIR) = None
   \<and> scan_files (snd (os_makedirs empty_card DEST_DIR)) []
        (walk_files (snd (os_makedirs empty_card DEST_DIR)) [''mnt'', ''DCIM'']) = Inr []
   \<and> fst (copy_or_move_files True empty_card [''mnt'', ''DCIM'']) = (True, 0, 0, 0)
   \<and> log (snd (copy_or_move_files True empty_card [''mnt'', ''DCIM'']))
       = [NewFilesFound 0, Finished 0 0]"
proof -
  have h1: "fst (os_makedirs empty_card DEST_DIR) = None"
    by code_simp
  have h2: "scan_files (snd (os_makedirs empty_card DEST_DIR)) []
        (walk_files (snd (os_makedirs empty_card DEST_DIR)) [''mnt'', ''DCIM'']) = Inr []"
    by code_simp
  have h3: "log (snd (os_makedirs empty_card DEST_DIR)) = []"
    by code_simp
  from empty_candidate_set [OF h1 h2, of True] h1 h2 h3 show ?thesis
    by simp
qed

section \<open>What the library calls change\<close>

lemma lookup_root [simp]: "lookup w [] = Some Dir"
  by (simp add: lookup_def)

lemma lookup_update:
  "lookup (w\<lparr>tree := AList.update p n (tree w)\<rparr>) q
     = (if q = [] then Some Dir else if q = p then Some n else lookup w q)"
  by (simp add: lookup_def update_conv')

lemma lookup_delete:
  "lookup (w\<lparr>tree := AList.delete p (tree w)\<rparr>) q
     = (if q = [] then Some Dir else if q = p then None else lookup w q)"
  by (simp add: lookup_def delete_conv')

lemma lookup_logger [simp]: "lookup (logger e w) q = lookup w q"
  by (simp add: lookup_def logger_def)

lemma logger_fields [simp]:
  "tree (logger e w) = tree w" "denied (logger e w) = denied w"
  "localtime (logger e w) = localtime w" "log (logger e w) = log w @ [e]"
  by (simp_all add: logger_def)

lemma same_host_refl [simp]: "same_host w w"
  by (simp add: same_host_def)

lemma same_host_trans: "same_host w w1 \<Longrightarrow> same_host w1 w2 \<Longrightarrow> same_host w w2"
  by (simp add: same_host_def)

lemma same_host_tree [simp]: "same_host w (w\<lparr>tree := t\<rparr>)"
  by (simp add: same_host_def)

lemma os_mkdir_Inr:
  assumes "os_mkdir w p = Inr w'"
  shows "lookup w p = None \<and> p \<noteq> [] \<and> same_host w w'
       \<and> (\<forall>q. lookup w' q = (if q = p then Some Dir else lookup w q))"
proof -
  from assms have a: "lookup w p = None" "lookup w (butlast p) = Some Dir"
      "w' = w\<lparr>tree := AList.update p Dir (tree w)\<rparr>"
    by (auto simp: os_mkdir_def split: option.splits node.splits if_splits)
  from a(1) have "p \<noteq> []"
    by auto
  with a show ?thesis
    by (auto simp: lookup_update)
qed

lemma mkdir_exist_ok_frame:
  assumes "mkdir_exist_ok w p = (r, w')"
  shows "same_host w w'
       \<and> (\<forall>q. lookup w' q = lookup w q \<or> (q = p \<and> lookup w q = None \<and> lookup w' q = Some Dir))
       \<and> (r = None \<longrightarrow> lookup w' p = Some Dir)"
proof (cases "os_mkdir w p")
  case (Inl e)
  with assms show ?thesis
    by (auto simp: mkdir_exist_ok_def os_path_isdir_def split: if_splits)
next
  case (Inr w1)
  with assms have "w' = w1" "r = None"
    by (simp_all add: mkdir_exist_ok_def)
  with os_mkdir_Inr [OF Inr] show ?thesis
    by simp
qed


lemma prefix_snoc_mono: "prefix q xs \<Longrightarrow> prefix q (xs @ [x])"
  by (simp add: prefix_def) auto

lemma makedirs_rev_frame:
  "makedirs_rev w rp = (r, w') \<Longrightarrow>
   same_host w w'
   \<and> (\<forall>q. lookup w' q = lookup w q
          \<or> (prefix q (rev rp) \<and> lookup w q = None \<and> lookup w' q = Some Dir))
   \<and> (r = None \<longrightarrow> lookup w' (rev rp) = Some Dir)"
proof (induction rp arbitrary: r w')
  case Nil
  then show ?case
    using mkdir_exist_ok_frame [of w "[]" r w'] by auto
next
  case (Cons name rhead)
  let ?p = "rev rhead @ [name]"
  show ?case
  proof (cases "os_path_exists w (rev rhead)")
    case True
    with Cons.prems have "mkdir_exist_ok w ?p = (r, w')"
      by simp
    from mkdir_exist_ok_frame [OF this] show ?thesis
      by auto
  next
    case nex: False
    obtain r1 w1 where rec: "makedirs_rev w rhead = (r1, w1)"
      by (cases "makedirs_rev w rhead")
    from Cons.IH [OF rec] have
      ih1: "same_host w w1" and
      ih2: "\<And>q. lookup w1 q = lookup w q
              \<or> (prefix q (rev rhead) \<and> lookup w q = None \<and> lookup w1 q = Some Dir)"
      by auto
    show ?thesis
    proof (cases "r1 = None \<or> r1 = Some FileExistsError")
      case True
      with nex rec Cons.prems have m: "mkdir_exist_ok w1 ?p = (r, w')"
        by (auto split: option.splits)
      from mkdir_exist_ok_frame [OF m] have
        m1: "same_host w1 w'" and
        m2: "\<And>q. lookup w' q = lookup w1 q
              \<or> (q = ?p \<and> lookup w1 q = None \<and> lookup w' q = Some Dir)" and
        m3: "r = None \<longrightarrow> lookup w' ?p = Some Dir"
        by auto
      have host: "same_host w w'"
        using ih1 m1 by (rule same_host_trans)
      have frame: "lookup w' q = lookup w q
          \<or> (prefix q ?p \<and> lookup w q = None \<and> lookup w' q = Some Dir)" for q
      proof (cases "lookup w' q = lookup w1 q")
        case True
        with ih2 [of q] show ?thesis
          by (auto intro: prefix_snoc_mono)
      next
        case False
        with m2 [of q] have q: "q = ?p" "lookup w1 q = None" "lookup w' q = Some Dir"
          by auto
        with ih2 [of q] show ?thesis
          by auto
      qed
      from host frame m3 show ?thesis
        by simp
    next
      case False
      with nex rec Cons.prems have "r = r1" "w' = w1"
        by (auto split: option.splits if_splits)
      with ih1 ih2 False show ?thesis
        by (auto intro: prefix_snoc_mono)
    qed
  qed
qed

lemma os_makedirs_frame:
  assumes "os_makedirs w p = (r, w')"
  shows "same_host w w'
    \<and> (\<forall>q. lookup w' q = lookup w q \<or> (prefix q p \<and> lookup w q = None \<and> lookup w' q = Some Dir))
    \<and> (r = None \<longrightarrow> lookup w' p = Some Dir)"
  using makedirs_rev_frame [of w "rev p" r w'] assms
  by (simp add: os_makedirs_def)



lemma is_file_simps [simp]:
  "is_file (Some (File t c))" "\<not> is_file (Some Dir)" "\<not> is_file None"
  by (simp_all add: is_file_def)

lemma read_file_Inr: "read_file w src = Inr (t, c) \<Longrightarrow> lookup w src = Some (File t c)"
  by (auto simp: read_file_def split: option.splits node.splits if_splits)

lemma write_file_Inr:
  assumes "write_file w dst t c = Inr w'"
  shows "same_host w w' \<and> (\<forall>q. lookup w' q = (if q = dst then Some (File t c) else lookup w q))"
proof -
  from assms have a: "lookup w dst \<noteq> Some Dir" "w' = w\<lparr>tree := AList.update dst (File t c) (tree w)\<rparr>"
    by (auto simp: write_file_def split: option.splits node.splits if_splits)
  from a(1) have "dst \<noteq> []"
    by auto
  with a show ?thesis
    by (auto simp: lookup_update)
qed

lemma os_unlink_Inr:
  assumes "os_unlink w p = Inr w'"
  shows "is_file (lookup w p) \<and> same_host w w'
       \<and> (\<forall>q. lookup w' q = (if q = p then None else lookup w q))"
proof -
  from assms have a: "is_file (lookup w p)" "w' = w\<lparr>tree := AList.delete p (tree w)\<rparr>"
    by (auto simp: os_unlink_def split: option.splits node.splits if_splits)
  from a(1) have "p \<noteq> []"
    by auto
  with a show ?thesis
    by (auto simp: lookup_delete)
qed

lemma os_rename_Inr:
  assumes "os_rename w src dst = Inr w'"
  shows "is_file (lookup w src) \<and> lookup w dst \<noteq> Some Dir \<and> same_host w w'
       \<and> (\<forall>q. lookup w' q = (if q = dst then lookup w src else if q = src then None else lookup w q))"
proof -
  from assms obtain t c where a: "lookup w src = Some (File t c)" "lookup w dst \<noteq> Some Dir"
      "w' = (if src = dst then w else w\<lparr>tree := AList.update dst (File t c) (AList.delete src (tree w))\<rparr>)"
    by (auto simp: os_rename_def split: option.splits node.splits if_splits)
  from a have ne: "dst \<noteq> []" "src \<noteq> []"
    by auto
  have "lookup w' q = (if q = dst then lookup w src else if q = src then None else lookup w q)" for q
    using a ne by (auto simp: lookup_def update_conv' delete_conv')
  moreover have "same_host w w'"
    using a(3) by (simp add: same_host_def)
  ultimately show ?thesis
    using a by simp
qed

lemma shutil_copy2_frame:
  assumes "shutil_copy2 w src dst = (r, w')"
  shows "same_host w w'
       \<and> (r \<noteq> None \<longrightarrow> w' = w)
       \<and> (r = None \<longrightarrow> is_file (lookup w src) \<and> real_dst w src dst \<noteq> src
             \<and> (\<forall>q. lookup w' q = (if q = real_dst w src dst then lookup w src else lookup w q)))"
proof (cases r)
  case (Some e)
  with assms have "w' = w"
    by (auto simp: shutil_copy2_def Let_def split: if_splits sum.splits prod.splits)
  with Some show ?thesis
    by simp
next
  case None
  let ?T = "real_dst w src dst"
  from None assms obtain t c where
    a: "\<not> (src = ?T \<and> os_path_exists w src)" "read_file w src = Inr (t, c)"
       "write_file w ?T t c = Inr w'"
    by (auto simp: shutil_copy2_def real_dst_def Let_def split: if_splits sum.splits prod.splits)
  from read_file_Inr [OF a(2)] have src: "lookup w src = Some (File t c)" .
  with a(1) have "?T \<noteq> src"
    by (auto simp: os_path_exists_def)
  with write_file_Inr [OF a(3)] src None show ?thesis
    by simp
qed

lemma move_to_frame:
  assumes "move_to w src dst = (r, w')"
  shows "same_host w w'
       \<and> (\<forall>q. lookup w' q = lookup w q
              \<or> (q = real_dst w src dst \<and> lookup w' q = lookup w src \<and> is_file (lookup w src))
              \<or> (q = src \<and> lookup w' q = None \<and> lookup w' (real_dst w src dst) = lookup w src
                   \<and> is_file (lookup w src)))
       \<and> (r = None \<longrightarrow> is_file (lookup w src) \<and> lookup w' (real_dst w src dst) = lookup w src
             \<and> (real_dst w src dst \<noteq> src \<longrightarrow> lookup w' src = None))"
proof (cases "os_rename w src dst")
  case (Inr w1)
  with assms have eq: "r = None" "w' = w1"
    by (simp_all add: move_to_def)
  from os_rename_Inr [OF Inr] have
    a: "is_file (lookup w src)" "lookup w dst \<noteq> Some Dir" "same_host w w1"
       "\<And>q. lookup w1 q = (if q = dst then lookup w src else if q = src then None else lookup w q)"
    by auto
  from a(2) have T: "real_dst w src dst = dst"
    by (simp add: real_dst_def os_path_isdir_def)
  from a eq T show ?thesis
    by auto
next
  case (Inl e)
  show ?thesis
  proof (cases "os_path_isdir w src")
    case True
    with Inl assms show ?thesis
      by (auto simp: move_to_def)
  next
    case False
    obtain r1 w1 where c: "shutil_copy2 w src dst = (r1, w1)"
      by (cases "shutil_copy2 w src dst")
    from shutil_copy2_frame [OF c] have
      c1: "same_host w w1" and c2: "r1 \<noteq> None \<longrightarrow> w1 = w" and
      c3: "r1 = None \<longrightarrow> is_file (lookup w src) \<and> real_dst w src dst \<noteq> src
             \<and> (\<forall>q. lookup w1 q = (if q = real_dst w src dst then lookup w src else lookup w q))"
      by auto
    show ?thesis
    proof (cases r1)
      case (Some e1)
      with Inl False c assms c2 show ?thesis
        by (auto simp: move_to_def)
    next
      case None
      show ?thesis
      proof (cases "os_unlink w1 src")
        case (Inl e2)
        with \<open>os_rename w src dst = Inl e\<close> False c None assms have "w' = w1" "r = Some e2"
          by (simp_all add: move_to_def)
        with c1 c3 None show ?thesis
          by auto
      next
        case (Inr w2)
        with \<open>os_rename w src dst = Inl e\<close> False c None assms have eq: "w' = w2" "r = None"
          by (simp_all add: move_to_def)
        from os_unlink_Inr [OF Inr] have
          u: "same_host w1 w2" "\<And>q. lookup w2 q = (if q = src then None else lookup w1 q)"
          by auto
        have "same_host w w'"
          using c1 u(1) eq by (auto intro: same_host_trans)
        with c3 None u(2) eq show ?thesis
          by auto
      qed
    qed
  qed
qed

lemma shutil_move_frame:
  assumes "shutil_move w src dst = (r, w')"
  shows "same_host w w'
       \<and> (\<forall>q. lookup w' q = lookup w q
              \<or> (q = real_dst w src dst \<and> lookup w' q = lookup w src \<and> is_file (lookup w src))
              \<or> (q = src \<and> lookup w' q = None \<and> lookup w' (real_dst w src dst) = lookup w src
                   \<and> is_file (lookup w src)))
       \<and> (r = None \<longrightarrow> is_file (lookup w src) \<and> lookup w' (real_dst w src dst) = lookup w src
             \<and> (real_dst w src dst \<noteq> src \<longrightarrow> lookup w' src = None))"
proof (cases "os_path_isdir w dst")
  case False
  with assms have "move_to w src dst = (r, w')"
    by (simp add: shutil_move_def)
  from move_to_frame [OF this] show ?thesis .
next
  case True
  let ?T = "os_path_join dst (os_path_basename src)"
  have T: "real_dst w src dst = ?T"
    using True by (simp add: real_dst_def)
  show ?thesis
  proof (cases "os_path_exists w ?T")
    case True
    with \<open>os_path_isdir w dst\<close> assms show ?thesis
      by (auto simp: shutil_move_def Let_def)
  next
    case False
    with True assms have m: "move_to w src ?T = (r, w')"
      by (simp add: shutil_move_def Let_def)
    from False have "real_dst w src ?T = ?T"
      by (simp add: real_dst_def os_path_isdir_def os_path_exists_def)
    with move_to_frame [OF m] T show ?thesis
      by simp
  qed
qed


lemma date_subdir_Inr_exists:
  assumes "date_subdir w src = Inr s"
  shows "lookup w src \<noteq> None \<and> (\<exists>name. s = DEST_DIR @ [name])"
  using assms
  by (auto simp: date_subdir_def os_path_getmtime_def os_path_join_def
      split: sum.splits option.splits)

lemma datetime_fromtimestamp_cong:
  "same_host w w' \<Longrightarrow> datetime_fromtimestamp w' = datetime_fromtimestamp w"
  by (simp add: fun_eq_iff datetime_fromtimestamp_def same_host_def)

lemma date_subdir_cong:
  "lookup w' src = lookup w src \<Longrightarrow> same_host w w' \<Longrightarrow> date_subdir w' src = date_subdir w src"
  by (auto simp: date_subdir_def os_path_getmtime_def datetime_fromtimestamp_cong
      split: sum.splits option.splits node.splits)

lemma transfer_file_Inl:
  "date_subdir w src = Inl e \<Longrightarrow> transfer_file mv w src = (Inl e, w)"
  by (simp add: transfer_file_def)

lemma transfer_file_frame:
  assumes t: "transfer_file mv w src = (r, w')" and s: "date_subdir w src = Inr s"
  shows "same_host w w'
    \<and> (\<forall>q. lookup w' q = lookup w q
           \<or> (prefix q s \<and> lookup w q = None \<and> lookup w' q = Some Dir)
           \<or> (q = real_dst w src (os_path_join s (os_path_basename src))
                \<and> lookup w' q = lookup w src \<and> is_file (lookup w src))
           \<or> (mv \<and> q = src \<and> lookup w' q = None
                \<and> lookup w' (real_dst w src (os_path_join s (os_path_basename src))) = lookup w src
                \<and> is_file (lookup w src)))
    \<and> (\<forall>sz. r = Inr sz \<longrightarrow> is_file (lookup w src)
           \<and> lookup w' (real_dst w src (os_path_join s (os_path_basename src))) = lookup w src
           \<and> lookup w' (os_path_join s (os_path_basename src)) \<noteq> None
           \<and> (mv \<and> real_dst w src (os_path_join s (os_path_basename src)) \<noteq> src
                \<longrightarrow> lookup w' src = None))"
proof -
  let ?d = "os_path_join s (os_path_basename src)"
  let ?T = "real_dst w src ?d"
  obtain r1 w1 where mk: "os_makedirs w s = (r1, w1)"
    by (cases "os_makedirs w s")
  from os_makedirs_frame [OF mk] have
    m1: "same_host w w1" and
    m2: "\<And>q. lookup w1 q = lookup w q \<or> (prefix q s \<and> lookup w q = None \<and> lookup w1 q = Some Dir)"
    by auto
  show ?thesis
  proof (cases r1)
    case (Some e)
    with t s mk have eq: "w' = w1" "r = Inl e"
      by (simp_all add: transfer_file_def)
    have "lookup w1 q = lookup w q
           \<or> (prefix q s \<and> lookup w q = None \<and> lookup w1 q = Some Dir)
           \<or> (q = ?T \<and> lookup w1 q = lookup w src \<and> is_file (lookup w src))
           \<or> (mv \<and> q = src \<and> lookup w1 q = None \<and> lookup w1 ?T = lookup w src
                \<and> is_file (lookup w src))" for q
      using m2 [of q] by blast
    with m1 eq show ?thesis
      by simp
  next
    case None
    from date_subdir_Inr_exists [OF s] have ex: "lookup w src \<noteq> None"
      by simp
    with m2 [of src] have src1: "lookup w1 src = lookup w src"
      by auto
    have "\<not> prefix ?d s"
      by (simp add: os_path_join_def prefix_def)
    with m2 [of ?d] have d1: "lookup w1 ?d = lookup w ?d"
      by auto
    then have T1: "real_dst w1 src ?d = ?T"
      by (simp add: real_dst_def os_path_isdir_def)
    obtain r2 w2 where op: "(if mv then shutil_move w1 src ?d else shutil_copy2 w1 src ?d) = (r2, w2)"
      by (cases "if mv then shutil_move w1 src ?d else shutil_copy2 w1 src ?d")
    have o: "same_host w1 w2
       \<and> (\<forall>q. lookup w2 q = lookup w1 q
              \<or> (q = ?T \<and> lookup w2 q = lookup w src \<and> is_file (lookup w src))
              \<or> (mv \<and> q = src \<and> lookup w2 q = None \<and> lookup w2 ?T = lookup w src
                   \<and> is_file (lookup w src)))
       \<and> (r2 = None \<longrightarrow> is_file (lookup w src) \<and> lookup w2 ?T = lookup w src
             \<and> (mv \<and> ?T \<noteq> src \<longrightarrow> lookup w2 src = None))"
    proof (cases mv)
      case True
      with op have "shutil_move w1 src ?d = (r2, w2)"
        by simp
      from shutil_move_frame [OF this] True show ?thesis
        by (simp add: T1 src1)
    next
      case False
      with op have "shutil_copy2 w1 src ?d = (r2, w2)"
        by simp
      from shutil_copy2_frame [OF this] False show ?thesis
        by (auto simp: T1 src1)
    qed
    then have o1: "same_host w1 w2" and
      o2: "\<And>q. lookup w2 q = lookup w1 q
              \<or> (q = ?T \<and> lookup w2 q = lookup w src \<and> is_file (lookup w src))
              \<or> (mv \<and> q = src \<and> lookup w2 q = None \<and> lookup w2 ?T = lookup w src
                   \<and> is_file (lookup w src))" and
      o3: "r2 = None \<longrightarrow> is_file (lookup w src) \<and> lookup w2 ?T = lookup w src
             \<and> (mv \<and> ?T \<noteq> src \<longrightarrow> lookup w2 src = None)"
      by auto
    have "transfer_file mv w src =
        (case (if mv then shutil_move w1 src ?d else shutil_copy2 w1 src ?d) of
           (Some e, w2) \<Rightarrow> (Inl e, w2)
         | (None, w2) \<Rightarrow>
             (case os_path_getsize w2 ?d of
                Inl e \<Rightarrow> (Inl e, w2)
              | Inr file_size \<Rightarrow> (Inr file_size, w2)))"
      using s mk None by (simp add: transfer_file_def Let_def)
    with t op have res: "(r, w') =
        (case r2 of
           Some e \<Rightarrow> (Inl e, w2)
         | None \<Rightarrow>
             (case os_path_getsize w2 ?d of
                Inl e \<Rightarrow> (Inl e, w2)
              | Inr file_size \<Rightarrow> (Inr file_size, w2)))"
      by simp
    then have w': "w' = w2"
      by (auto split: option.splits sum.splits)
    from res have r: "\<And>sz. r = Inr sz \<Longrightarrow> r2 = None \<and> os_path_getsize w2 ?d = Inr sz"
      by (auto split: option.splits sum.splits)
    have host: "same_host w w'"
      using m1 o1 w' by (auto intro: same_host_trans)
    have frame: "lookup w' q = lookup w q
           \<or> (prefix q s \<and> lookup w q = None \<and> lookup w' q = Some Dir)
           \<or> (q = ?T \<and> lookup w' q = lookup w src \<and> is_file (lookup w src))
           \<or> (mv \<and> q = src \<and> lookup w' q = None \<and> lookup w' ?T = lookup w src
                \<and> is_file (lookup w src))" for q
      using m2 [of q] o2 [of q] w' by auto
    have succ: "is_file (lookup w src) \<and> lookup w' ?T = lookup w src
           \<and> lookup w' ?d \<noteq> None \<and> (mv \<and> ?T \<noteq> src \<longrightarrow> lookup w' src = None)"
      if "r = Inr sz" for sz
    proof -
      from r [OF that] have "r2 = None" "os_path_getsize w2 ?d = Inr sz"
        by auto
      then have "lookup w2 ?d \<noteq> None"
        by (auto simp: os_path_getsize_def split: option.splits)
      with o3 \<open>r2 = None\<close> w' show ?thesis
        by simp
    qed
    from host frame succ show ?thesis
      by blast
  qed
qed

section \<open>The source file of a transfer\<close>

text \<open>
  C5.  One transfer, whatever it meets.  In copy mode the source path holds afterwards
  exactly what it held before.  In move mode the source path is either untouched or
  gone, and when it is gone the path that \<open>shutil.move\<close> wrote holds the file the
  source held (its bytes and its modification time): the source is never removed unless
  the destination has been written.
\<close>

theorem source_fate:
  "lookup (snd (transfer_file False w src_path)) src_path = lookup w src_path
   \<and> (lookup (snd (transfer_file True w src_path)) src_path = lookup w src_path
      \<or> (lookup (snd (transfer_file True w src_path)) src_path = None
           \<and> is_file (lookup w src_path)
           \<and> (\<exists>dest_subdir. date_subdir w src_path = Inr dest_subdir
                 \<and> lookup (snd (transfer_file True w src_path))
                      (real_dst w src_path (os_path_join dest_subdir (os_path_basename src_path)))
                    = lookup w src_path)))"
proof (cases "date_subdir w src_path")
  case (Inl e)
  then show ?thesis
    by (simp add: transfer_file_Inl)
next
  case (Inr s)
  let ?T = "real_dst w src_path (os_path_join s (os_path_basename src_path))"
  from date_subdir_Inr_exists [OF Inr] have ex: "lookup w src_path \<noteq> None"
    by simp
  have copy: "lookup (snd (transfer_file False w src_path)) src_path = lookup w src_path"
  proof -
    obtain r w' where t: "transfer_file False w src_path = (r, w')"
      by (cases "transfer_file False w src_path")
    from transfer_file_frame [OF t Inr] have
      "lookup w' src_path = lookup w src_path
       \<or> (prefix src_path s \<and> lookup w src_path = None \<and> lookup w' src_path = Some Dir)
       \<or> (src_path = ?T \<and> lookup w' src_path = lookup w src_path \<and> is_file (lookup w src_path))"
      by blast
    with ex t show ?thesis
      by auto
  qed
  have move: "lookup (snd (transfer_file True w src_path)) src_path = lookup w src_path
      \<or> (lookup (snd (transfer_file True w src_path)) src_path = None
           \<and> is_file (lookup w src_path)
           \<and> lookup (snd (transfer_file True w src_path)) ?T = lookup w src_path)"
  proof -
    obtain r w' where t: "transfer_file True w src_path = (r, w')"
      by (cases "transfer_file True w src_path")
    from transfer_file_frame [OF t Inr] have
      "lookup w' src_path = lookup w src_path
       \<or> (prefix src_path s \<and> lookup w src_path = None \<and> lookup w' src_path = Some Dir)
       \<or> (src_path = ?T \<and> lookup w' src_path = lookup w src_path \<and> is_file (lookup w src_path))
       \<or> (lookup w' src_path = None \<and> lookup w' ?T = lookup w src_path
            \<and> is_file (lookup w src_path))"
      by blast
    with ex t show ?thesis
      by auto
  qed
  from copy move Inr show ?thesis
    by auto
qed

theorem source_fate_witness:
  "lookup (snd (transfer_file False card_world [''mnt'', ''DCIM'', ''GX010001.MP4'']))
      [''mnt'', ''DCIM'', ''GX010001.MP4''] = Some (File 1688558400 ''abc'')
   \<and> lookup (snd (transfer_file True card_world [''mnt'', ''DCIM'', ''GX010001.MP4'']))
      [''mnt'', ''DCIM'', ''GX010001.MP4''] = None
   \<and> lookup (snd (transfer_file True card_world [''mnt'', ''DCIM'', ''GX010001.MP4'']))
      [''Zdir'', ''GoPro'', ''07-05-2023'', ''GX010001.MP4''] = Some (File 1688558400 ''abc'')"
proof -
  let ?src = "[''mnt'', ''DCIM'', ''GX010001.MP4'']"
  have a: "lookup card_world ?src = Some (File 1688558400 ''abc'')"
    by code_simp
  have b: "lookup (snd (transfer_file True card_world ?src)) ?src = None"
    by code_simp
  have c: "date_subdir card_world ?src = Inr [''Zdir'', ''GoPro'', ''07-05-2023'']"
    by code_simp
  have d: "real_dst card_world ?src (os_path_join [''Zdir'', ''GoPro'', ''07-05-2023''] (os_path_basename ?src))
      = [''Zdir'', ''GoPro'', ''07-05-2023'', ''GX010001.MP4'']"
    by code_simp
  from source_fate [of card_world ?src] a b c d show ?thesis
    by simp
qed

section \<open>The bucket of a file\<close>







lemma replicate_3: "replicate 3 c = [c, c, c]"
  by (simp add: numeral_3_eq_3)

lemma replicate_2: "replicate 2 c = [c, c]"
  by (simp add: numeral_2_eq_2)





lemma transfer_file_Inr:
  "transfer_file move w src_path = (Inr file_size, w') \<Longrightarrow>
   \<exists>dest_subdir. date_subdir w src_path = Inr dest_subdir
     \<and> lookup w' (os_path_join dest_subdir (os_path_basename src_path)) \<noteq> None"
  by (auto simp: transfer_file_def os_path_getsize_def Let_def
      split: sum.splits prod.splits option.splits if_splits)




section \<open>The polling loop\<close>

lemma main_loop_timeout:
  "now = poll_time h i \<Longrightarrow> ps = probes h \<Longrightarrow>
   \<forall>j \<ge> i. poll_time h j < timeout \<longrightarrow> locate (probes h j) = Inr None \<Longrightarrow>
   main_loop a ps timeout w now i
     = \<lparr>exit_code = 0, uncaught = None, synced = [], notified = [], final = w\<rparr>"
proof (induction a ps timeout w now i rule: main_loop.induct)
  case (1 a ps timeout w now i)
  show ?case
  proof (cases "now < timeout")
    case False
    then show ?thesis
      by (simp add: main_loop.simps)
  next
    case True
    with "1.prems" have none: "locate (ps i) = Inr None"
      by simp
    have next_time: "now + int (elapsed (ps i)) + 1000 = poll_time h (i + 1)"
      using "1.prems"(1,2) by simp
    have later: "\<forall>j \<ge> i + 1. poll_time h j < timeout \<longrightarrow> locate (probes h j) = Inr None"
      using "1.prems"(3) by simp
    from "1.IH" [OF True none refl next_time "1.prems"(2) later] True none show ?thesis
      by (simp add: main_loop.simps)
  qed
qed

text \<open>
  When every probe returns, the loop does what the specification says of the timeout:
  if no poll that starts inside the budget of seven seconds yields a mount, the process
  exits with code 0, the engine is never called and the world is left as it was.  (The
  loop is a total function: the process does end.)
\<close>

lemma polling_timeout_returns:
  assumes "\<forall>i. poll_time h i < clock h + 7000 \<longrightarrow> locate (probes h i) = Inr None"
  shows "main a h w = \<lparr>exit_code = 0, uncaught = None, synced = [], notified = [], final = w\<rparr>"
  unfolding main_def using assms by (intro main_loop_timeout) simp_all

text \<open>
  C8.  The claim fails where a probe raises.  \<open>check_mtp_connection\<close> and
  \<open>try_access_gopro_mtp\<close> catch their exceptions and answer "not found";
  \<open>is_gopro_connected\<close> and \<open>find_gopro_mount_point\<close> do not, and \<open>main\<close> calls them
  outside any \<open>try\<close>.  On a host where the first of them raises, no mount is ever
  reported, yet the process ends at the first poll with exit code 1.
\<close>

theorem polling_probe_raises:
  "check_mtp_connection (probes stale_gvfs 0)
   \<and> is_gopro_connected (probes stale_gvfs 0) = Inl OSError
   \<and> locate (probes stale_gvfs 0) = Inl OSError
   \<and> exit_code (main \<lparr>args_move = False, args_no_notify = False\<rparr> stale_gvfs card_world) = 1
   \<and> uncaught (main \<lparr>args_move = False, args_no_notify = False\<rparr> stale_gvfs card_world)
        = Some OSError
   \<and> synced (main \<lparr>args_move = False, args_no_notify = False\<rparr> stale_gvfs card_world) = []"
  by (simp add: main_def main_loop.simps stale_gvfs_def locate_def)

section \<open>The counters and the log of the loop\<close>












section \<open>The scan and the walk\<close>










section \<open>Runs over disjoint trees\<close>


lemma untouched_logger [simp]:
  "untouched move S w1 done (logger e w) = untouched move S w1 done w"
  by (simp add: untouched_def)

lemma untouched_mono:
  "untouched move S w1 done w \<Longrightarrow> done \<subseteq> done' \<Longrightarrow> untouched move S w1 done' w"
  unfolding untouched_def by blast

lemma disjoint_under:
  assumes "disjoint_trees S" "prefix S q"
  shows "\<not> prefix DEST_DIR q" "\<not> prefix q (DEST_DIR @ xs)"
proof -
  show "\<not> prefix DEST_DIR q"
    using assms prefix_same_cases [of S q DEST_DIR] by (auto simp: disjoint_trees_def)
  show "\<not> prefix q (DEST_DIR @ xs)"
  proof
    assume "prefix q (DEST_DIR @ xs)"
    with assms(2) have "prefix S (DEST_DIR @ xs)"
      by (rule prefix_order.trans)
    moreover have "prefix DEST_DIR (DEST_DIR @ xs)"
      by simp
    ultimately show False
      using assms(1) prefix_same_cases [of S "DEST_DIR @ xs" DEST_DIR]
      by (auto simp: disjoint_trees_def)
  qed
qed

lemma date_subdir_cong':
  "lookup w' src = lookup w src \<Longrightarrow> localtime w' = localtime w \<Longrightarrow>
   date_subdir w' src = date_subdir w src"
  by (auto simp: date_subdir_def os_path_getmtime_def datetime_fromtimestamp_def
      split: sum.splits option.splits node.splits)

lemma date_subdir_missing: "lookup w src = None \<Longrightarrow> date_subdir w src = Inl FileNotFoundError"
  by (simp add: date_subdir_def os_path_getmtime_def)

lemma transfer_step_world:
  "transfer_file move w c = (r, w') \<Longrightarrow>
   \<exists>es. fst (transfer_step move n i c (w, p, s)) = w'\<lparr>log := log w' @ es\<rparr>"
proof (cases r)
  case (Inl e)
  assume "transfer_file move w c = (r, w')"
  with Inl have "fst (transfer_step move n i c (w, p, s)) = w'\<lparr>log := log w' @ [ErrorProcessing c e]\<rparr>"
    by (simp add: transfer_step_def logger_def)
  then show ?thesis
    by blast
next
  case (Inr sz)
  assume "transfer_file move w c = (r, w')"
  with Inr have "fst (transfer_step move n i c (w, p, s)) = w'\<lparr>log := log w' @ []\<rparr>
     \<or> fst (transfer_step move n i c (w, p, s))
        = w'\<lparr>log := log w' @ [Progress (p + 1) n (s + sz)]\<rparr>"
    by (auto simp: transfer_step_def logger_def)
  then show ?thesis
    by blast
qed

lemma lookup_log [simp]: "lookup (w\<lparr>log := l\<rparr>) q = lookup w q"
  by (simp add: lookup_def)

lemma untouched_log [simp]:
  "untouched move S w1 done (w\<lparr>log := l\<rparr>) = untouched move S w1 done w"
  by (simp add: untouched_def)

lemma transfer_untouched:
  assumes inv: "untouched move S w1 done w"
    and dj: "disjoint_trees S"
    and c: "prefix S c" "date_subdir w1 c = Inr s"
      "lookup w1 (os_path_join s (os_path_basename c)) = None"
    and t: "transfer_file move w c = (r, w')"
  shows "untouched move S w1 (insert c done) w'
    \<and> (\<forall>q. q \<noteq> os_path_join s (os_path_basename c) \<and> q \<noteq> c \<and> lookup w q \<noteq> None
           \<longrightarrow> lookup w' q = lookup w q)
    \<and> (\<forall>q. lookup w q \<noteq> None \<and> \<not> prefix S q \<longrightarrow> lookup w' q \<noteq> None)
    \<and> (\<forall>sz. r = Inr sz \<longrightarrow> lookup w' (os_path_join s (os_path_basename c)) = lookup w1 c
           \<and> is_file (lookup w1 c))"
proof (cases "lookup w c = None")
  case True
  from date_subdir_missing [OF True] have "transfer_file move w c = (Inl FileNotFoundError, w)"
    by (rule transfer_file_Inl)
  with t have "w' = w" "r = Inl FileNotFoundError"
    by simp_all
  with inv show ?thesis
    by (auto intro: untouched_mono)
next
  case False
  let ?d = "os_path_join s (os_path_basename c)"
  from inv have env: "denied w = denied w1" "localtime w = localtime w1"
    and src: "\<And>q. prefix S q \<Longrightarrow> lookup w q = lookup w1 q \<or> (move \<and> q \<in> done \<and> lookup w q = None)"
    and dst: "\<And>q. \<not> prefix S q \<Longrightarrow> lookup w1 q \<noteq> None \<Longrightarrow> lookup w q = lookup w1 q"
    and dirs: "\<And>q. lookup w q = Some Dir \<Longrightarrow> lookup w1 q = Some Dir \<or> length q \<le> length DEST_DIR + 1"
    by (auto simp: untouched_def)
  from src [OF c(1)] False have c1: "lookup w c = lookup w1 c"
    by auto
  with env c(2) date_subdir_cong' [of w c w1] have s: "date_subdir w c = Inr s"
    by simp
  from date_subdir_Inr_exists [OF c(2)] obtain name where name: "s = DEST_DIR @ [name]"
    by blast
  then have len: "length ?d = length DEST_DIR + 2"
    by (simp add: os_path_join_def)
  have "lookup w ?d \<noteq> Some Dir"
  proof
    assume "lookup w ?d = Some Dir"
    from dirs [OF this] c(3) len show False
      by simp
  qed
  then have T: "real_dst w c ?d = ?d"
    by (simp add: real_dst_def os_path_isdir_def)
  from transfer_file_frame [OF t s] T have
    host: "same_host w w'" and
    frame: "\<And>q. lookup w' q = lookup w q
           \<or> (prefix q s \<and> lookup w q = None \<and> lookup w' q = Some Dir)
           \<or> (q = ?d \<and> lookup w' q = lookup w c \<and> is_file (lookup w c))
           \<or> (move \<and> q = c \<and> lookup w' q = None)" and
    succ: "\<And>sz. r = Inr sz \<Longrightarrow> is_file (lookup w c) \<and> lookup w' ?d = lookup w c"
    by auto
  have under: "\<not> prefix q s" "q \<noteq> ?d" if "prefix S q" for q
  proof -
    from disjoint_under(2) [OF dj that, of "[name]"] name show "\<not> prefix q s"
      by simp
    from disjoint_under(1) [OF dj that] name show "q \<noteq> ?d"
      by (auto simp: os_path_join_def)
  qed
  have i1: "lookup w' q = lookup w1 q \<or> (move \<and> q \<in> insert c done \<and> lookup w' q = None)"
    if "prefix S q" for q
    using frame [of q] src [OF that] under [OF that] by auto
  have i2: "lookup w' q = lookup w1 q" if "\<not> prefix S q" "lookup w1 q \<noteq> None" for q
    using frame [of q] dst [OF that] that c(1) c(3) by auto
  have i3: "lookup w1 q = Some Dir \<or> length q \<le> length DEST_DIR + 1" if "lookup w' q = Some Dir" for q
  proof -
    from frame [of q] that have "lookup w q = Some Dir \<or> prefix q s"
      by (auto simp: is_file_def split: option.splits node.splits)
    then show ?thesis
    proof
      assume "lookup w q = Some Dir"
      then show ?thesis by (rule dirs)
    next
      assume "prefix q s"
      then have "length q \<le> length s"
        by (rule prefix_length_le)
      with name show ?thesis by simp
    qed
  qed
  from host env have env': "denied w' = denied w1" "localtime w' = localtime w1"
    by (simp_all add: same_host_def)
  have inv': "untouched move S w1 (insert c done) w'"
    unfolding untouched_def using env' i1 i2 i3 by blast
  have f: "lookup w' q = lookup w q" if "q \<noteq> ?d" "q \<noteq> c" "lookup w q \<noteq> None" for q
    using frame [of q] that by auto
  have pers: "lookup w' q \<noteq> None" if "lookup w q \<noteq> None" "\<not> prefix S q" for q
    using frame [of q] that c(1) by (auto simp: is_file_def split: option.splits)
  from inv' f pers succ c1 show ?thesis
    by auto
qed

lemma step_untouched:
  assumes inv: "untouched move S w1 done w"
    and dj: "disjoint_trees S"
    and c: "prefix S c" "date_subdir w1 c = Inr s"
      "lookup w1 (os_path_join s (os_path_basename c)) = None"
  shows "untouched move S w1 (insert c done) (fst (transfer_step move n i c (w, p, k)))
    \<and> (\<forall>q. q \<noteq> os_path_join s (os_path_basename c) \<and> q \<noteq> c \<and> lookup w q \<noteq> None
           \<longrightarrow> lookup (fst (transfer_step move n i c (w, p, k))) q = lookup w q)
    \<and> (\<forall>q. lookup w q \<noteq> None \<and> \<not> prefix S q
           \<longrightarrow> lookup (fst (transfer_step move n i c (w, p, k))) q \<noteq> None)
    \<and> (\<not> isl (fst (transfer_file move w c)) \<longrightarrow>
           lookup (fst (transfer_step move n i c (w, p, k))) (os_path_join s (os_path_basename c))
             = lookup w1 c
           \<and> is_file (lookup w1 c))"
proof -
  obtain r w' where t: "transfer_file move w c = (r, w')"
    by (cases "transfer_file move w c")
  from transfer_step_world [OF t, of n i p k] obtain es where
    w2: "fst (transfer_step move n i c (w, p, k)) = w'\<lparr>log := log w' @ es\<rparr>"
    by blast
  from transfer_untouched [OF inv dj c t] have
    a: "untouched move S w1 (insert c done) w'" and
    b: "\<And>q. q \<noteq> os_path_join s (os_path_basename c) \<and> q \<noteq> c \<and> lookup w q \<noteq> None
           \<Longrightarrow> lookup w' q = lookup w q" and
    d: "\<And>q. lookup w q \<noteq> None \<and> \<not> prefix S q \<Longrightarrow> lookup w' q \<noteq> None" and
    e: "\<And>sz. r = Inr sz \<Longrightarrow> lookup w' (os_path_join s (os_path_basename c)) = lookup w1 c
           \<and> is_file (lookup w1 c)"
    by blast+
  have e': "\<not> isl (fst (transfer_file move w c)) \<longrightarrow>
      lookup w' (os_path_join s (os_path_basename c)) = lookup w1 c \<and> is_file (lookup w1 c)"
    using e t by (cases r) auto
  from a b d e' show ?thesis
    unfolding w2 by simp
qed



lemma loop_keeps:
  assumes dj: "disjoint_trees S"
  shows "\<forall>c \<in> set rest. fresh S w1 c \<and> c \<noteq> q
           \<and> (\<forall>s. date_subdir w1 c = Inr s \<longrightarrow> os_path_join s (os_path_basename c) \<noteq> q) \<Longrightarrow>
    untouched move S w1 done w \<Longrightarrow> lookup w q \<noteq> None \<Longrightarrow>
    lookup (fst (transfer_loop move n i rest (w, p, k))) q = lookup w q"
proof (induction rest arbitrary: "done" w p k i)
  case Nil
  then show ?case by simp
next
  case (Cons c rest)
  from Cons.prems(1) obtain s where c: "prefix S c" "date_subdir w1 c = Inr s"
      "lookup w1 (os_path_join s (os_path_basename c)) = None"
    and ne: "c \<noteq> q" "os_path_join s (os_path_basename c) \<noteq> q"
    by (auto simp: fresh_def)
  obtain w2 p2 k2 where st: "transfer_step move n i c (w, p, k) = (w2, p2, k2)"
    by (cases "transfer_step move n i c (w, p, k)")
  from step_untouched [OF Cons.prems(2) dj c, of n i p k] st ne Cons.prems(3) have
    inv2: "untouched move S w1 (insert c done) w2" and
    keep: "lookup w2 q = lookup w q"
    by auto
  from Cons.prems(1) have rest: "\<forall>c \<in> set rest. fresh S w1 c \<and> c \<noteq> q
           \<and> (\<forall>s. date_subdir w1 c = Inr s \<longrightarrow> os_path_join s (os_path_basename c) \<noteq> q)"
    by simp
  have eq: "transfer_loop move n i (c # rest) (w, p, k) = transfer_loop move n (i + 1) rest (w2, p2, k2)"
    using st by simp
  from Cons.IH [OF rest inv2, of "i + 1" p2 k2] keep Cons.prems(3) show ?case
    unfolding eq by simp
qed












lemma transfer_loop_append:
  "transfer_loop move n i (xs @ ys) st
     = transfer_loop move n (i + length xs) ys (transfer_loop move n i xs st)"
  by (induction xs arbitrary: i st) simp_all

lemma attempts_append:
  "attempts move n i (xs @ ys) st
     = attempts move n i xs st @ attempts move n (i + length xs) ys (transfer_loop move n i xs st)"
  by (induction xs arbitrary: i st) simp_all



section \<open>Failure isolation\<close>



section \<open>Candidates\<close>



section \<open>Idempotence\<close>




end
